theory Spec2Isabelle
  imports Complex_Main "HOL-Library.AList" "HOL-Library.Word"
begin

section \<open>Python values\<close>

text \<open>
  The capability tree, the peer mirrors and every message payload of \<^verbatim>\<open>zocp.py\<close> are
  plain Python objects as \<^verbatim>\<open>json.loads\<close> produces them. A dictionary is an association
  list in insertion order: \<^verbatim>\<open>d[k] = v\<close> is \<open>AList.update\<close> (an existing key keeps its
  place, a new key goes to the end), \<^verbatim>\<open>d[k]\<close> and \<^verbatim>\<open>k in d\<close> read it with \<open>map_of\<close>, and
  \<^verbatim>\<open>for k in d\<close> walks \<open>map fst\<close>.

  A dictionary key is a hashable object: \<^verbatim>\<open>None\<close> (as in \<^verbatim>\<open>set_object(None)\<close>), a number or a
  string. Python identifies numerically equal keys (\<^verbatim>\<open>1 == 1.0 == True\<close>), so a numeric key
  is the number it denotes. A float is the real number it denotes (NaN and the infinities
  are not modelled); a string is a list of characters.
\<close>

datatype key = KNone | KNum real | KStr string

datatype val =
    VNone
  | VBool bool
  | VInt int
  | VFloat real
  | VStr string
  | VList "val list"
  | VDict "(key \<times> val) list"

datatype error =
    TypeError
  | KeyError
  | IndexError
  | AttributeError
  | Exception key

text \<open>
  A call either returns or raises. Python mutates its arguments in place, so a call that
  raises has still changed what it changed before the raise: \<open>Raised e x\<close> carries the
  content of the mutated object (or the state of the node) at the moment of the raise.
\<close>

datatype 'a res = Done 'a | Raised error 'a

fun outcome :: "'a res \<Rightarrow> 'a" where
  "outcome (Done x) = x"
| "outcome (Raised e x) = x"

fun raised :: "'a res \<Rightarrow> error option" where
  "raised (Done x) = None"
| "raised (Raised e x) = Some e"

fun is_dict :: "val \<Rightarrow> bool" where
  "is_dict (VDict _) = True"
| "is_dict _ = False"

text \<open>\<^verbatim>\<open>if x:\<close> and \<^verbatim>\<open>not x\<close>: Python truthiness.\<close>

fun truthy :: "val \<Rightarrow> bool" where
  "truthy VNone = False"
| "truthy (VBool b) = b"
| "truthy (VInt i) = (i \<noteq> 0)"
| "truthy (VFloat f) = (f \<noteq> 0)"
| "truthy (VStr s) = (s \<noteq> [])"
| "truthy (VList xs) = (xs \<noteq> [])"
| "truthy (VDict kvs) = (kvs \<noteq> [])"

text \<open>
  Hashing a value to use it as a key: lists and dictionaries are unhashable (TypeError in
  Python, \<open>None\<close> here).
\<close>

fun as_key :: "val \<Rightarrow> key option" where
  "as_key VNone = Some KNone"
| "as_key (VBool b) = Some (KNum (if b then 1 else 0))"
| "as_key (VInt i) = Some (KNum (of_int i))"
| "as_key (VFloat f) = Some (KNum f)"
| "as_key (VStr s) = Some (KStr s)"
| "as_key (VList _) = None"
| "as_key (VDict _) = None"

text \<open>The key as the object a loop over the dictionary yields.\<close>

fun of_key :: "key \<Rightarrow> val" where
  "of_key KNone = VNone"
| "of_key (KNum r) = (if r \<in> \<int> then VInt \<lfloor>r\<rfloor> else VFloat r)"
| "of_key (KStr s) = VStr s"

text \<open>\<^verbatim>\<open>for x in b\<close>: the sequence a value iterates over, TypeError when it is not iterable.\<close>

fun py_iter :: "val \<Rightarrow> error + val list" where
  "py_iter (VDict kvs) = Inr (map (\<lambda>kv. of_key (fst kv)) kvs)"
| "py_iter (VList xs) = Inr xs"
| "py_iter (VStr s) = Inr (map (\<lambda>c. VStr [c]) s)"
| "py_iter _ = Inl TypeError"

text \<open>Sequence indexing: a negative index counts from the end, out of range is IndexError.\<close>

definition seq_index :: "'a list \<Rightarrow> int \<Rightarrow> error + 'a" where
  "seq_index xs i =
     (if 0 \<le> i \<and> i < int (length xs) then Inr (xs ! nat i)
      else if i < 0 \<and> - int (length xs) \<le> i then Inr (xs ! nat (int (length xs) + i))
      else Inl IndexError)"

text \<open>\<^verbatim>\<open>b[key]\<close> on any value.\<close>

fun getitem :: "val \<Rightarrow> val \<Rightarrow> error + val" where
  "getitem (VDict kvs) key =
     (case as_key key of
        None \<Rightarrow> Inl TypeError
      | Some k \<Rightarrow> (case map_of kvs k of Some v \<Rightarrow> Inr v | None \<Rightarrow> Inl KeyError))"
| "getitem (VList xs) (VInt i) = seq_index xs i"
| "getitem (VList xs) (VBool b) = seq_index xs (if b then 1 else 0)"
| "getitem (VStr s) (VInt i) = map_sum id (\<lambda>c. VStr [c]) (seq_index s i)"
| "getitem (VStr s) (VBool b) = map_sum id (\<lambda>c. VStr [c]) (seq_index s (if b then 1 else 0))"
| "getitem _ _ = Inl TypeError"

text \<open>\<^verbatim>\<open>d.get(key)\<close> on a dictionary: \<^verbatim>\<open>None\<close> for a missing key.\<close>

definition dict_get_default :: "(key \<times> val) list \<Rightarrow> key \<Rightarrow> val" where
  "dict_get_default kvs k = (case map_of kvs k of Some v \<Rightarrow> v | None \<Rightarrow> VNone)"

section \<open>Module functions\<close>

text \<open>\<^verbatim>\<open>dict_get(d, keys)\<close>: follows \<open>keys\<close> down a nested dictionary.\<close>

fun dict_get :: "val \<Rightarrow> val list \<Rightarrow> error + val" where
  "dict_get d [] = Inr d"
| "dict_get d (key # keys) =
     (case getitem d key of Inl e \<Rightarrow> Inl e | Inr d' \<Rightarrow> dict_get d' keys)"

text \<open>
  \<^verbatim>\<open>dict_merge(a, b)\<close>: returns \<open>b\<close> when \<open>a\<close> is not a dictionary; otherwise walks the keys of
  \<open>b\<close>, descends where both sides hold a dictionary, overwrites \<open>a[key]\<close> otherwise, and
  returns the mutated \<open>a\<close>. \<open>merge_loop\<close> is the \<^verbatim>\<open>for key in b\<close> loop with the keys still to
  visit; its first argument is the content of \<open>a\<close> so far. The \<^verbatim>\<open>path\<close> argument of the
  source is never read and is left out.
\<close>

function dict_merge :: "val \<Rightarrow> val \<Rightarrow> val res"
  and merge_loop :: "(key \<times> val) list \<Rightarrow> val \<Rightarrow> val list \<Rightarrow> val res" where
  "dict_merge a b =
     (case a of
        VDict xs \<Rightarrow>
          (case py_iter b of
             Inl e \<Rightarrow> Raised e a
           | Inr keys \<Rightarrow> merge_loop xs b keys)
      | _ \<Rightarrow> Done b)"
| "merge_loop xs b [] = Done (VDict xs)"
| "merge_loop xs b (key # rest) =
     (case as_key key of
        None \<Rightarrow> Raised TypeError (VDict xs)
      | Some k \<Rightarrow>
         (case map_of xs k of
            Some av \<Rightarrow>
              (if is_dict av then
                 (case getitem b key of
                    Inl e \<Rightarrow> Raised e (VDict xs)
                  | Inr bv \<Rightarrow>
                      if is_dict bv then
                        (case dict_merge av bv of
                           Done av' \<Rightarrow> merge_loop (AList.update k av' xs) b rest
                         | Raised e av' \<Rightarrow> Raised e (VDict (AList.update k av' xs)))
                      else merge_loop (AList.update k bv xs) b rest)
               else
                 (case getitem b key of
                    Inl e \<Rightarrow> Raised e (VDict xs)
                  | Inr bv \<Rightarrow> merge_loop (AList.update k bv xs) b rest))
          | None \<Rightarrow>
              (case getitem b key of
                 Inl e \<Rightarrow> Raised e (VDict xs)
               | Inr bv \<Rightarrow> merge_loop (AList.update k bv xs) b rest)))"
  by pat_completeness auto

termination
proof -
  have dict: "map_of kvs k = Some v \<Longrightarrow> size v < Suc (size_list (size_prod (\<lambda>_. 0) size) kvs)"
    for kvs :: "(key \<times> val) list" and k v
    by (induction kvs) (auto split: if_splits)
  have mem: "v \<in> set ys \<Longrightarrow> size v < Suc (size_list size ys)" for ys and v :: val
    by (induction ys) auto
  have seq: "seq_index ys i = Inr v \<Longrightarrow> size v < Suc (size_list size ys)"
    for ys i and v :: val
    by (rule mem) (auto simp: seq_index_def split: if_splits)
  have str: "map_sum id (\<lambda>c. VStr [c]) r = Inr bv \<Longrightarrow> \<not> is_dict bv"
    for r :: "error + char" and bv
    by (cases r) auto
  have item: "getitem b key = Inr bv \<Longrightarrow> is_dict bv \<Longrightarrow> size bv < size b" for b key bv
    by (cases b; cases key) (auto split: if_splits option.splits dest: dict seq str)
  show ?thesis
    by (relation "measures
      [\<lambda>p. case p of Inl (a, b) \<Rightarrow> size b | Inr (xs, b, ks) \<Rightarrow> size b,
       \<lambda>p. case p of Inl (a, b) \<Rightarrow> 1 | Inr (xs, b, ks) \<Rightarrow> 0,
       \<lambda>p. case p of Inl (a, b) \<Rightarrow> 0 | Inr (xs, b, ks) \<Rightarrow> length ks]")
      (auto dest: item)
qed

declare dict_merge.simps [simp del]

section \<open>The node\<close>

text \<open>
  A peer is the 128-bit UUID the transport delivers; a frame is one byte string of a
  multipart message. What the node does to the outside is recorded, in order, in \<open>trace\<close>:
  the transport calls \<^verbatim>\<open>join\<close>, \<^verbatim>\<open>whisper\<close> and \<^verbatim>\<open>shout\<close> (with the object handed to \<^verbatim>\<open>json.dumps\<close>
  as the message), the overridable \<^verbatim>\<open>on_...\<close> callbacks with their arguments (the defaults
  print), and the \<^verbatim>\<open>print("ERROR: ...")\<close> of a frame that does not decode.
\<close>

type_synonym peer = "128 word"

type_synonym frame = string

datatype effect =
    Join string
  | Whisper peer val
  | Shout string val
  | On_peer_enter peer "frame list"
  | On_peer_exit peer "frame list"
  | On_peer_join peer frame "frame list"
  | On_peer_leave peer frame "frame list"
  | On_peer_whisper peer "frame list"
  | On_peer_shout peer frame "frame list"
  | On_peer_modified peer val
  | On_modified val "peer option"
  | Print_error

text \<open>
  The fields of a \<^verbatim>\<open>ZOCP\<close> object. \<^verbatim>\<open>_cur_obj\<close> is a reference to a dictionary inside
  \<^verbatim>\<open>capability\<close>: the model holds the path of that dictionary from the root, which is the
  same object as long as no dictionary on the path is replaced (the two methods that set
  \<^verbatim>\<open>_cur_obj\<close> and the \<^verbatim>\<open>register_...\<close> methods never replace one). \<^verbatim>\<open>_cur_obj_keys\<close> is the
  tuple of keys the source keeps beside it.
\<close>

record zocp =
  peers :: "(peer \<times> val) list"
  node_name :: val
  capability :: val
  cur_obj :: "key list"
  cur_obj_keys :: "key list"
  running :: bool
  trace :: "effect list"

definition emit :: "effect \<Rightarrow> zocp \<Rightarrow> zocp" where
  "emit e s = s\<lparr>trace := trace s @ [e]\<rparr>"

text \<open>\<^verbatim>\<open>self.whisper(peer, json.dumps(m).encode('utf-8'))\<close> and the same for \<^verbatim>\<open>shout\<close>.\<close>

definition whisper :: "peer \<Rightarrow> val \<Rightarrow> zocp \<Rightarrow> zocp" where
  "whisper peer m s = emit (Whisper peer m) s"

definition shout :: "string \<Rightarrow> val \<Rightarrow> zocp \<Rightarrow> zocp" where
  "shout grp m s = emit (Shout grp m) s"

text \<open>\<^verbatim>\<open>ZOCP.__init__\<close> on a dictionary \<open>cap\<close>.\<close>

definition ZOCP_init :: "(key \<times> val) list \<Rightarrow> zocp" where
  "ZOCP_init cap =
     \<lparr>peers = [], node_name = dict_get_default cap (KStr ''_name''), capability = VDict cap,
      cur_obj = [], cur_obj_keys = [], running = False, trace = [Join ''ZOCP'']\<rparr>"

definition get_capability :: "zocp \<Rightarrow> val" where
  "get_capability s = capability s"

subsection \<open>Callbacks\<close>

definition on_peer_enter :: "peer \<Rightarrow> frame list \<Rightarrow> zocp \<Rightarrow> zocp" where
  "on_peer_enter peer msg s = emit (On_peer_enter peer msg) s"

definition on_peer_exit :: "peer \<Rightarrow> frame list \<Rightarrow> zocp \<Rightarrow> zocp" where
  "on_peer_exit peer msg s = emit (On_peer_exit peer msg) s"

definition on_peer_join :: "peer \<Rightarrow> frame \<Rightarrow> frame list \<Rightarrow> zocp \<Rightarrow> zocp" where
  "on_peer_join peer grp msg s = emit (On_peer_join peer grp msg) s"

definition on_peer_leave :: "peer \<Rightarrow> frame \<Rightarrow> frame list \<Rightarrow> zocp \<Rightarrow> zocp" where
  "on_peer_leave peer grp msg s = emit (On_peer_leave peer grp msg) s"

definition on_peer_whisper :: "peer \<Rightarrow> frame list \<Rightarrow> zocp \<Rightarrow> zocp" where
  "on_peer_whisper peer msg s = emit (On_peer_whisper peer msg) s"

definition on_peer_shout :: "peer \<Rightarrow> frame \<Rightarrow> frame list \<Rightarrow> zocp \<Rightarrow> zocp" where
  "on_peer_shout peer grp msg s = emit (On_peer_shout peer grp msg) s"

definition on_peer_modified :: "peer \<Rightarrow> val \<Rightarrow> zocp \<Rightarrow> zocp" where
  "on_peer_modified peer data s = emit (On_peer_modified peer data) s"

definition on_modified :: "val \<Rightarrow> peer option \<Rightarrow> zocp \<Rightarrow> zocp" where
  "on_modified data peer s = emit (On_modified data peer) s"

subsection \<open>Node methods\<close>

text \<open>
  \<^verbatim>\<open>_on_modified(data, peer)\<close>. With a non-empty \<^verbatim>\<open>_cur_obj_keys\<close> the loop nests \<open>data\<close> under
  the keys before the last one, and the next statement replaces the result by the tuple of
  keys itself (handed on as a list).
\<close>

definition priv_on_modified :: "val \<Rightarrow> peer option \<Rightarrow> zocp \<Rightarrow> zocp" where
  "priv_on_modified data peer s =
     (let data1 =
            (if cur_obj_keys s \<noteq> [] then
               (let nested = foldl (\<lambda>d key. VDict [(key, d)]) data (tl (rev (cur_obj_keys s)))
                in VList (map of_key (cur_obj_keys s)))
             else data);
          s1 = on_modified data1 peer s
      in if running s1 then shout ''ZOCP'' (VDict [(KStr ''MOD'', capability s1)]) s1 else s1)"

text \<open>
  \<^verbatim>\<open>self._cur_obj[name] = v\<close>: the store through the reference, as a store at the end of its
  path. A path that no longer leads to a dictionary of the tree leaves the tree as it is.
\<close>

fun store_at :: "key list \<Rightarrow> key \<Rightarrow> val \<Rightarrow> val \<Rightarrow> val" where
  "store_at [] k v (VDict kvs) = VDict (AList.update k v kvs)"
| "store_at (p # ps) k v (VDict kvs) =
     (case map_of kvs p of
        Some d \<Rightarrow> VDict (AList.update p (store_at ps k v d) kvs)
      | None \<Rightarrow> VDict kvs)"
| "store_at ps k v d = d"

text \<open>The object a reference leads to: the dictionary at the end of the path, if there is one.\<close>

fun deref :: "key list \<Rightarrow> val \<Rightarrow> val option" where
  "deref [] d = Some d"
| "deref (p # ps) (VDict kvs) = (case map_of kvs p of Some d \<Rightarrow> deref ps d | None \<Rightarrow> None)"
| "deref (p # ps) d = None"

text \<open>
  \<^verbatim>\<open>set_object(name, type)\<close>. The branch for \<^verbatim>\<open>name == None\<close> has no \<^verbatim>\<open>return\<close>: the statements
  after it run for every name.
\<close>

definition set_object :: "val \<Rightarrow> val \<Rightarrow> zocp \<Rightarrow> zocp res" where
  "set_object name type s =
     (let s1 = (if name = VNone then s\<lparr>cur_obj := [], cur_obj_keys := []\<rparr> else s);
          fresh = VDict [(KStr ''type'', type)]
      in case capability s1 of
        VDict cap \<Rightarrow>
          (let objects = dict_get_default cap (KStr ''objects'');
               point = (\<lambda>k objs. s1\<lparr>capability := VDict (AList.update (KStr ''objects'') objs cap),
                                     cur_obj := [KStr ''objects'', k],
                                     cur_obj_keys := [KStr ''objects'', k]\<rparr>)
           in if \<not> truthy objects then
                (case as_key name of
                   None \<Rightarrow> Raised TypeError s1
                 | Some k \<Rightarrow> Done (point k (VDict [(k, fresh)])))
              else case objects of
                VDict objs \<Rightarrow>
                  (case as_key name of
                     None \<Rightarrow> Raised TypeError s1
                   | Some k \<Rightarrow>
                      (let entry = dict_get_default objs k
                       in if \<not> truthy entry then Done (point k (VDict (AList.update k fresh objs)))
                          else case entry of
                            VDict e \<Rightarrow>
                              Done (point k (VDict (AList.update k
                                     (VDict (AList.update (KStr ''type'') type e)) objs)))
                          | _ \<Rightarrow> Raised TypeError s1))
              | _ \<Rightarrow> Raised AttributeError s1)
      | _ \<Rightarrow> Raised AttributeError s1)"

text \<open>
  \<^verbatim>\<open>register_int\<close>, \<^verbatim>\<open>register_float\<close> and \<^verbatim>\<open>register_percent\<close> have the same body up to the
  \<^verbatim>\<open>typeHint\<close> string: \<open>register_bounded\<close> is that body. The attribute dictionary is stored
  first and the bounds are added to the stored object; the model adds them before the
  store, which is the same dictionary in the end.
\<close>

definition register_bounded ::
    "string \<Rightarrow> val \<Rightarrow> val \<Rightarrow> val \<Rightarrow> val \<Rightarrow> val \<Rightarrow> val \<Rightarrow> zocp \<Rightarrow> zocp res" where
  "register_bounded hint name v access mn mx step s =
     (case as_key name of
        None \<Rightarrow> Raised TypeError s
      | Some k \<Rightarrow>
         (let n0 = [(KStr ''value'', v), (KStr ''typeHint'', VStr hint), (KStr ''access'', access)];
              n1 = (if truthy mn then AList.update (KStr ''min'') mn n0 else n0);
              n2 = (if truthy mx then AList.update (KStr ''max'') mx n1 else n1);
              n3 = (if truthy step then AList.update (KStr ''step'') step n2 else n2);
              s1 = s\<lparr>capability := store_at (cur_obj s) k (VDict n3) (capability s)\<rparr>
          in Done (priv_on_modified (VDict [(KStr ''name'', VDict n3)]) None s1)))"

definition register_int :: "val \<Rightarrow> val \<Rightarrow> val \<Rightarrow> val \<Rightarrow> val \<Rightarrow> val \<Rightarrow> zocp \<Rightarrow> zocp res" where
  "register_int name v access mn mx step s = register_bounded ''int'' name v access mn mx step s"

definition register_float :: "val \<Rightarrow> val \<Rightarrow> val \<Rightarrow> val \<Rightarrow> val \<Rightarrow> val \<Rightarrow> zocp \<Rightarrow> zocp res" where
  "register_float name v access mn mx step s =
     register_bounded ''float'' name v access mn mx step s"

definition register_percent :: "val \<Rightarrow> val \<Rightarrow> val \<Rightarrow> val \<Rightarrow> val \<Rightarrow> val \<Rightarrow> zocp \<Rightarrow> zocp res" where
  "register_percent name v access mn mx step s =
     register_bounded ''percent'' name v access mn mx step s"

subsection \<open>Node methods to peers\<close>

definition peer_get :: "peer \<Rightarrow> val \<Rightarrow> zocp \<Rightarrow> zocp" where
  "peer_get peer keys s = whisper peer (VDict [(KStr ''GET'', keys)]) s"

definition peer_get_capability :: "peer \<Rightarrow> zocp \<Rightarrow> zocp" where
  "peer_get_capability peer s = peer_get peer VNone s"

definition peer_set :: "peer \<Rightarrow> val \<Rightarrow> zocp \<Rightarrow> zocp" where
  "peer_set peer data s = whisper peer (VDict [(KStr ''SET'', data)]) s"

definition peer_subscribe :: "peer \<Rightarrow> val \<Rightarrow> val \<Rightarrow> zocp \<Rightarrow> zocp" where
  "peer_subscribe peer signal sensor s =
     whisper peer (VDict [(KStr ''SUB'', VList [signal, sensor])]) s"

definition peer_unsubscribe :: "peer \<Rightarrow> val \<Rightarrow> val \<Rightarrow> zocp \<Rightarrow> zocp" where
  "peer_unsubscribe peer signal sensor s =
     whisper peer (VDict [(KStr ''SUB'', VList [signal, sensor])]) s"

subsection \<open>Verb handlers\<close>

text \<open>
  The loop of \<^verbatim>\<open>_handle_GET\<close>: \<^verbatim>\<open>ret[get_item] = self.capability.get(get_item)\<close> for each item.
\<close>

fun get_loop :: "val \<Rightarrow> val list \<Rightarrow> (key \<times> val) list \<Rightarrow> error + (key \<times> val) list" where
  "get_loop cap [] ret = Inr ret"
| "get_loop cap (get_item # rest) ret =
     (case cap of
        VDict kvs \<Rightarrow>
          (case as_key get_item of
             None \<Rightarrow> Inl TypeError
           | Some k \<Rightarrow> get_loop cap rest (AList.update k (dict_get_default kvs k) ret))
      | _ \<Rightarrow> Inl AttributeError)"

definition handle_GET :: "val \<Rightarrow> peer \<Rightarrow> frame option \<Rightarrow> zocp \<Rightarrow> zocp res" where
  "handle_GET data peer grp s =
     (if \<not> truthy data then
        Done (whisper peer (VDict [(KStr ''MOD'', get_capability s)]) s)
      else case py_iter data of
        Inl e \<Rightarrow> Raised e s
      | Inr items \<Rightarrow>
          (case get_loop (capability s) items [] of
             Inl e \<Rightarrow> Raised e s
           | Inr ret \<Rightarrow>
               Done (whisper peer (VDict [(KStr ''MOD'', VDict ret)]) (peer_set peer data s))))"

text \<open>
  \<^verbatim>\<open>self.capability = dict_merge(self.capability, data)\<close>: when the merge raises, the
  assignment is skipped, but the dictionary \<^verbatim>\<open>self.capability\<close> refers to has been changed
  in place up to the raise.
\<close>

definition handle_SET :: "val \<Rightarrow> peer \<Rightarrow> frame option \<Rightarrow> zocp \<Rightarrow> zocp res" where
  "handle_SET data peer grp s =
     (case dict_merge (capability s) data of
        Done r \<Rightarrow> Done (on_modified data (Some peer) (s\<lparr>capability := r\<rparr>))
      | Raised e a \<Rightarrow> Raised e (s\<lparr>capability := a\<rparr>))"

text \<open>The bodies of these four start with \<^verbatim>\<open>return\<close>.\<close>

definition handle_CALL :: "val \<Rightarrow> peer \<Rightarrow> frame option \<Rightarrow> zocp \<Rightarrow> zocp res" where
  "handle_CALL data peer grp s = Done s"

definition handle_SUB :: "val \<Rightarrow> peer \<Rightarrow> frame option \<Rightarrow> zocp \<Rightarrow> zocp res" where
  "handle_SUB data peer grp s = Done s"

definition handle_UNSUB :: "val \<Rightarrow> peer \<Rightarrow> frame option \<Rightarrow> zocp \<Rightarrow> zocp res" where
  "handle_UNSUB data peer grp s = Done s"

definition handle_REP :: "val \<Rightarrow> peer \<Rightarrow> frame option \<Rightarrow> zocp \<Rightarrow> zocp res" where
  "handle_REP data peer grp s = Done s"

text \<open>
  \<^verbatim>\<open>self.peers[peer] = dict_merge(self.peers.get(peer), data)\<close>. A merge that raises was
  merging into the mirror dictionary of a registered peer, changed in place.
\<close>

definition handle_MOD :: "val \<Rightarrow> peer \<Rightarrow> frame option \<Rightarrow> zocp \<Rightarrow> zocp res" where
  "handle_MOD data peer grp s =
     (case dict_merge (case map_of (peers s) peer of Some m \<Rightarrow> m | None \<Rightarrow> VNone) data of
        Done r \<Rightarrow> Done (on_peer_modified peer data (s\<lparr>peers := AList.update peer r (peers s)\<rparr>))
      | Raised e a \<Rightarrow> Raised e (s\<lparr>peers := AList.update peer a (peers s)\<rparr>))"

definition handle_SIG :: "val \<Rightarrow> peer \<Rightarrow> frame option \<Rightarrow> zocp \<Rightarrow> zocp res" where
  "handle_SIG data peer grp s = Done s"

subsection \<open>The message handler\<close>

text \<open>
  One round of the \<^verbatim>\<open>for method in msg.keys()\<close> loop. For a verb outside the eight,
  \<^verbatim>\<open>getattr(self, 'handle_' + method)\<close> fails on a \<^verbatim>\<open>ZOCP\<close> object, which has no attribute of
  such a name, and the \<^verbatim>\<open>except\<close> clause raises \<^verbatim>\<open>Exception('No %s method on resource: %s')\<close>.
\<close>

definition handle_method :: "key \<Rightarrow> val \<Rightarrow> peer \<Rightarrow> frame option \<Rightarrow> zocp \<Rightarrow> zocp res" where
  "handle_method method data peer grp s =
     (if method = KStr ''GET'' then handle_GET data peer grp s
      else if method = KStr ''SET'' then handle_SET data peer grp s
      else if method = KStr ''CALL'' then handle_CALL data peer grp s
      else if method = KStr ''SUB'' then handle_SUB data peer grp s
      else if method = KStr ''UNSUB'' then handle_UNSUB data peer grp s
      else if method = KStr ''REP'' then handle_REP data peer grp s
      else if method = KStr ''MOD'' then handle_MOD data peer grp s
      else if method = KStr ''SIG'' then handle_SIG data peer grp s
      else Raised (Exception method) s)"

text \<open>
  The loop itself; \<^verbatim>\<open>msg[method]\<close> is read for each key (a key of \<open>msg\<close> in every call the
  source makes, so the KeyError is never met).
\<close>

fun dispatch :: "(key \<times> val) list \<Rightarrow> key list \<Rightarrow> peer \<Rightarrow> frame option \<Rightarrow> zocp \<Rightarrow> zocp res" where
  "dispatch msg [] peer grp s = Done s"
| "dispatch msg (method # rest) peer grp s =
     (case map_of msg method of
        None \<Rightarrow> Raised KeyError s
      | Some data \<Rightarrow>
          (case handle_method method data peer grp s of
             Done s1 \<Rightarrow> dispatch msg rest peer grp s1
           | Raised e s1 \<Rightarrow> Raised e s1))"

text \<open>
  The \<^verbatim>\<open>try\<close> statement at the end of \<^verbatim>\<open>get_message\<close>. \<open>loads\<close> stands for
  \<^verbatim>\<open>json.loads(frame.decode('utf-8'))\<close>, \<open>None\<close> when it raises; a missing frame raises inside
  the \<^verbatim>\<open>try\<close> as well. The \<^verbatim>\<open>else\<close> part is not covered by the \<^verbatim>\<open>except\<close> clause.
\<close>

definition decode_dispatch ::
    "(frame \<Rightarrow> val option) \<Rightarrow> peer \<Rightarrow> frame option \<Rightarrow> frame list \<Rightarrow> zocp \<Rightarrow> zocp res" where
  "decode_dispatch loads peer grp msg s =
     (case msg of
        [] \<Rightarrow> Done (emit Print_error s)
      | f # _ \<Rightarrow>
          (case loads f of
             None \<Rightarrow> Done (emit Print_error s)
           | Some m \<Rightarrow>
               (case m of
                  VDict kvs \<Rightarrow> dispatch kvs (map fst kvs) peer grp s
                | _ \<Rightarrow> Raised AttributeError s)))"

text \<open>
  \<^verbatim>\<open>get_message\<close> on the multipart message the socket delivers: \<open>type\<close> and \<open>peer\<close> are its
  first two frames decoded, \<open>msg\<close> the frames after them.
\<close>

definition get_message ::
    "(frame \<Rightarrow> val option) \<Rightarrow> string \<Rightarrow> peer \<Rightarrow> frame list \<Rightarrow> zocp \<Rightarrow> zocp res" where
  "get_message loads type peer msg s =
     (if type = ''ENTER'' then
        (let s1 = (if map_of (peers s) peer = None
                   then s\<lparr>peers := AList.update peer (VDict []) (peers s)\<rparr> else s)
         in Done (on_peer_enter peer msg (peer_get_capability peer s1)))
      else if type = ''EXIT'' then
        (let s1 = on_peer_exit peer msg s
         in case map_of (peers s1) peer of
              None \<Rightarrow> Raised KeyError s1
            | Some m \<Rightarrow> Done (s1\<lparr>peers := AList.delete peer (peers s1)\<rparr>))
      else if type = ''JOIN'' then
        (case msg of
           [] \<Rightarrow> Raised IndexError s
         | grp # rest \<Rightarrow> Done (on_peer_join peer grp rest s))
      else if type = ''LEAVE'' then
        (case msg of
           [] \<Rightarrow> Raised IndexError s
         | grp # rest \<Rightarrow> Done (on_peer_leave peer grp rest s))
      else if type = ''SHOUT'' then
        (case msg of
           [] \<Rightarrow> Raised IndexError s
         | grp # rest \<Rightarrow> decode_dispatch loads peer (Some grp) rest (on_peer_shout peer grp rest s))
      else if type = ''WHISPER'' then
        decode_dispatch loads peer None msg (on_peer_whisper peer msg s)
      else Done s)"

section \<open>Auxiliary notions\<close>

text \<open>A decoder that reads every frame as the same JSON document, for concrete runs.\<close>

definition loads_const :: "val \<Rightarrow> frame \<Rightarrow> val option" where
  "loads_const m f = Some m"

text \<open>
  A value \<open>v\<close> stored under a key is settled for the payload value \<open>bv\<close> of that key when one
  more round of the merge loop for the key would store \<open>v\<close> again.
\<close>

definition settled :: "val \<Rightarrow> val \<Rightarrow> bool" where
  "settled v bv = (if is_dict v \<and> is_dict bv then dict_merge v bv = Done v else v = bv)"

definition settled_at :: "(key \<times> val) list \<Rightarrow> (key \<times> val) list \<Rightarrow> key \<Rightarrow> bool" where
  "settled_at ys zs k =
     (\<exists>v bv. map_of zs k = Some v \<and> map_of ys k = Some bv \<and> settled v bv)"

text \<open>The verbs \<open>handle_method\<close> has a branch for.\<close>

definition verbs :: "key list" where
  "verbs = [KStr ''GET'', KStr ''SET'', KStr ''CALL'', KStr ''SUB'', KStr ''UNSUB'',
            KStr ''REP'', KStr ''MOD'', KStr ''SIG'']"

text \<open>
  Payloads of the shapes the wire format gives the verbs: \<^verbatim>\<open>null\<close> or a list of strings for
  GET, an object for SET and MOD, anything for the other five. A message is \<open>shaped\<close> when it
  is an object all of whose entries are such a verb with such a payload.
\<close>

fun is_str :: "val \<Rightarrow> bool" where
  "is_str (VStr _) = True"
| "is_str _ = False"

fun is_str_list :: "val \<Rightarrow> bool" where
  "is_str_list (VList xs) = list_all is_str xs"
| "is_str_list _ = False"

definition payload_fits :: "key \<Rightarrow> val \<Rightarrow> bool" where
  "payload_fits method data =
     (if method = KStr ''GET'' then data = VNone \<or> is_str_list data
      else if method = KStr ''SET'' \<or> method = KStr ''MOD'' then is_dict data
      else method \<in> set verbs)"

fun shaped :: "val \<Rightarrow> bool" where
  "shaped (VDict kvs) = list_all (\<lambda>kv. payload_fits (fst kv) (snd kv)) kvs"
| "shaped _ = False"

text \<open>
  The frame \<open>get_message\<close> decodes: the first one of a WHISPER, the one after the group of
  a SHOUT.
\<close>

definition content_frame :: "string \<Rightarrow> frame list \<Rightarrow> frame option" where
  "content_frame type msg =
     (if type = ''WHISPER'' then (case msg of [] \<Rightarrow> None | f # rest \<Rightarrow> Some f)
      else if type = ''SHOUT'' then (case msg of g # f # rest \<Rightarrow> Some f | _ \<Rightarrow> None)
      else None)"

section \<open>The merge\<close>

lemma as_key_of_key [simp]: "as_key (of_key k) = Some k"
  by (cases k) (auto elim: Ints_cases)

lemma of_key_eq [simp]: "of_key k = of_key k' \<longleftrightarrow> k = k'"
  by (metis as_key_of_key option.inject)

lemma merge_loop_settled:
  "\<forall>k. of_key k \<in> set ks \<longrightarrow> settled_at ys zs k
   \<Longrightarrow> set ks \<subseteq> range of_key
   \<Longrightarrow> merge_loop zs (VDict ys) ks = Done (VDict zs)"
proof (induction ks)
  case Nil
  then show ?case by simp
next
  case (Cons key rest)
  from Cons.prems(2) obtain k where key: "key = of_key k" by auto
  from Cons.prems(1) key obtain v bv where
    v: "map_of zs k = Some v" and bv: "map_of ys k = Some bv" and st: "settled v bv"
    by (auto simp: settled_at_def)
  have rest: "merge_loop zs (VDict ys) rest = Done (VDict zs)"
    using Cons by auto
  have triv: "AList.update k v zs = zs"
    using v by (rule update_triv)
  show ?case
  proof (cases "is_dict v \<and> is_dict bv")
    case True
    with st have "dict_merge v bv = Done v" by (simp add: settled_def)
    with True v bv rest triv show ?thesis
      by (simp add: key)
  next
    case False
    with st have "v = bv" by (simp add: settled_def)
    with False v bv rest triv show ?thesis
      by (auto simp add: key)
  qed
qed

lemma dict_merge_VDict:
  "dict_merge (VDict xs) b =
     (case py_iter b of Inl e \<Rightarrow> Raised e (VDict xs) | Inr keys \<Rightarrow> merge_loop xs b keys)"
  by (simp add: dict_merge.simps)

lemma dict_merge_non_dict: "\<not> is_dict a \<Longrightarrow> dict_merge a b = Done b"
  by (cases a) (simp_all add: dict_merge.simps)

lemma self_merge: "is_dict v \<Longrightarrow> dict_merge v v = Done v"
proof (induction v)
  case (VDict ys)
  have "\<forall>k. of_key k \<in> set (map (\<lambda>kv. of_key (fst kv)) ys) \<longrightarrow> settled_at ys ys k"
  proof (intro allI impI)
    fix k assume "of_key k \<in> set (map (\<lambda>kv. of_key (fst kv)) ys)"
    then have "k \<in> fst ` set ys" by force
    then obtain v where v: "map_of ys k = Some v"
      by (metis domD dom_map_of_conv_image_fst)
    then have "(k, v) \<in> set ys" "v \<in> Basic_BNFs.snds (k, v)"
      by (auto dest: map_of_SomeD)
    then have "is_dict v \<Longrightarrow> dict_merge v v = Done v"
      by (rule VDict.IH)
    then have "settled v v" by (auto simp: settled_def)
    with v show "settled_at ys ys k" by (auto simp: settled_at_def)
  qed
  then have "merge_loop ys (VDict ys) (map (\<lambda>kv. of_key (fst kv)) ys) = Done (VDict ys)"
    by (rule merge_loop_settled) auto
  then show ?case by (simp add: dict_merge_VDict)
qed simp_all

lemma merge_loop_dict:
  assumes sub: "\<And>k bv a. map_of ys k = Some bv \<Longrightarrow> is_dict bv \<Longrightarrow> is_dict a \<Longrightarrow>
                  \<exists>r. dict_merge a bv = Done r \<and> is_dict r \<and> dict_merge r bv = Done r"
  shows "set ks \<subseteq> of_key ` fst ` set ys \<Longrightarrow>
         \<exists>zs. merge_loop xs (VDict ys) ks = Done (VDict zs) \<and>
              (\<forall>k. of_key k \<in> set ks \<or> settled_at ys xs k \<longrightarrow> settled_at ys zs k)"
proof (induction ks arbitrary: xs)
  case Nil
  then show ?case by simp
next
  case (Cons key rest)
  from Cons.prems obtain k where key: "key = of_key k" and kin: "k \<in> fst ` set ys" by auto
  from kin obtain bv where bv: "map_of ys k = Some bv"
    by (metis domD dom_map_of_conv_image_fst)
  have rest: "set rest \<subseteq> of_key ` fst ` set ys" using Cons.prems by auto
  have self: "settled bv bv" by (auto simp: settled_def self_merge)
  have step: "\<exists>zs. merge_loop (AList.update k nv xs) (VDict ys) rest = Done (VDict zs) \<and>
              (\<forall>k'. of_key k' \<in> set (key # rest) \<or> settled_at ys xs k' \<longrightarrow> settled_at ys zs k')"
    if nv: "settled nv bv" for nv
  proof -
    from Cons.IH[OF rest, of "AList.update k nv xs"] obtain zs where
      zs: "merge_loop (AList.update k nv xs) (VDict ys) rest = Done (VDict zs)" and
      keep: "\<forall>k'. of_key k' \<in> set rest \<or> settled_at ys (AList.update k nv xs) k' \<longrightarrow> settled_at ys zs k'"
      by blast
    have "settled_at ys (AList.update k nv xs) k'"
      if "of_key k' = key \<or> settled_at ys xs k'" for k'
      using that nv bv by (auto simp: settled_at_def update_conv' key)
    with zs keep show ?thesis by auto
  qed
  show ?case
  proof (cases "map_of xs k")
    case None
    with step[OF self] bv show ?thesis
      by (simp add: key)
  next
    case (Some av)
    show ?thesis
    proof (cases "is_dict av \<and> is_dict bv")
      case True
      with sub[OF bv, of av] obtain r where
        r: "dict_merge av bv = Done r" "is_dict r" "dict_merge r bv = Done r" by blast
      with True have "settled r bv" by (simp add: settled_def)
      from step[OF this] Some bv True r show ?thesis
        by (simp add: key)
    next
      case False
      with step[OF self] Some bv show ?thesis
        by (auto simp add: key)
    qed
  qed
qed

lemma dict_merge_dict:
  "is_dict b \<Longrightarrow>
   \<exists>r. dict_merge a b = Done r \<and> (is_dict a \<longrightarrow> is_dict r) \<and> dict_merge r b = Done r"
proof (induction b arbitrary: a)
  case (VDict ys)
  show ?case
  proof (cases a)
    case (VDict xs)
    let ?ks = "map (\<lambda>kv. of_key (fst kv)) ys"
    have sub: "\<exists>r. dict_merge a' bv = Done r \<and> is_dict r \<and> dict_merge r bv = Done r"
      if "map_of ys k = Some bv" "is_dict bv" "is_dict a'" for k bv a'
    proof -
      from that(1) have "(k, bv) \<in> set ys" "bv \<in> Basic_BNFs.snds (k, bv)"
        by (auto dest: map_of_SomeD)
      from VDict.IH[OF this that(2), of a'] that(3) show ?thesis by blast
    qed
    have "\<exists>zs. merge_loop xs (VDict ys) ?ks = Done (VDict zs) \<and>
            (\<forall>k. of_key k \<in> set ?ks \<or> settled_at ys xs k \<longrightarrow> settled_at ys zs k)"
    proof (rule merge_loop_dict)
      show "\<exists>r. dict_merge a' bv = Done r \<and> is_dict r \<and> dict_merge r bv = Done r"
        if "map_of ys k = Some bv" "is_dict bv" "is_dict a'" for k bv a'
        using that by (rule sub)
      show "set ?ks \<subseteq> of_key ` fst ` set ys" by auto
    qed
    then obtain zs where
      zs: "merge_loop xs (VDict ys) ?ks = Done (VDict zs)" and
      st: "\<forall>k. of_key k \<in> set ?ks \<longrightarrow> settled_at ys zs k"
      by blast
    from st have "merge_loop zs (VDict ys) ?ks = Done (VDict zs)"
      by (rule merge_loop_settled) auto
    with zs VDict show ?thesis by (simp add: dict_merge_VDict)
  qed (simp_all add: self_merge dict_merge_non_dict)
qed simp_all

text \<open>
  C5. Merge idempotence: for every tree \<open>t\<close> and every payload object \<open>s\<close>,
  \<^verbatim>\<open>dict_merge(t, s)\<close> returns, and merging \<open>s\<close> into its result once more returns that
  result unchanged.
\<close>

theorem dict_merge_idempotent:
  "\<exists>r. dict_merge t (VDict s) = Done r \<and> dict_merge r (VDict s) = Done r"
  using dict_merge_dict[of "VDict s" t] by auto

section \<open>Requests from peers\<close>

lemmas cb_defs = emit_def whisper_def shout_def on_peer_enter_def on_peer_exit_def
  on_peer_join_def on_peer_leave_def on_peer_whisper_def on_peer_shout_def
  on_peer_modified_def on_modified_def

subsection \<open>SET\<close>

lemma dict_merge_settled:
  assumes "dict_merge (VDict xs) (VDict ys) = Done r"
  shows "\<exists>zs. r = VDict zs \<and> (\<forall>k \<in> fst ` set ys. settled_at ys zs k)"
proof -
  let ?ks = "map (\<lambda>kv. of_key (fst kv)) ys"
  have "\<exists>zs. merge_loop xs (VDict ys) ?ks = Done (VDict zs) \<and>
          (\<forall>k. of_key k \<in> set ?ks \<or> settled_at ys xs k \<longrightarrow> settled_at ys zs k)"
  proof (rule merge_loop_dict)
    show "\<exists>r. dict_merge a bv = Done r \<and> is_dict r \<and> dict_merge r bv = Done r"
      if "map_of ys k = Some bv" "is_dict bv" "is_dict a" for k bv a
      using dict_merge_dict[OF that(2), of a] that(3) by blast
    show "set ?ks \<subseteq> of_key ` fst ` set ys" by auto
  qed
  then obtain zs where zs: "merge_loop xs (VDict ys) ?ks = Done (VDict zs)"
    and st: "\<forall>k. of_key k \<in> set ?ks \<longrightarrow> settled_at ys zs k" by blast
  from zs assms have "r = VDict zs" by (simp add: dict_merge_VDict)
  moreover have "\<forall>k \<in> fst ` set ys. settled_at ys zs k"
    using st by force
  ultimately show ?thesis by blast
qed

lemma merged_path:
  "dict_get b p = Inr v \<Longrightarrow> \<not> is_dict v \<Longrightarrow> is_dict b \<Longrightarrow> dict_merge a b = Done r
   \<Longrightarrow> dict_get r p = Inr v"
proof (induction p arbitrary: a b r)
  case Nil
  then show ?case by simp
next
  case (Cons key ps)
  from Cons.prems(3) obtain ys where b: "b = VDict ys" by (cases b) auto
  from Cons.prems(1) b obtain k bv where
    k: "as_key key = Some k" and bv: "map_of ys k = Some bv" and rest: "dict_get bv ps = Inr v"
    by (auto split: option.splits sum.splits)
  show ?case
  proof (cases "is_dict a")
    case False
    with Cons.prems(4) have "r = b" by (simp add: dict_merge_non_dict)
    with Cons.prems(1) show ?thesis by simp
  next
    case True
    then obtain xs where a: "a = VDict xs" by (cases a) auto
    from bv have "k \<in> fst ` set ys" by (metis domI dom_map_of_conv_image_fst)
    with dict_merge_settled[of xs ys r] Cons.prems(4) a b obtain zs where
      r: "r = VDict zs" and st: "settled_at ys zs k" by blast
    from st bv obtain v' where v': "map_of zs k = Some v'" and s: "settled v' bv"
      by (auto simp: settled_at_def)
    have "dict_get v' ps = Inr v"
    proof (cases "is_dict v' \<and> is_dict bv")
      case True
      with s have "dict_merge v' bv = Done v'" by (simp add: settled_def)
      with Cons.IH[OF rest Cons.prems(2)] True show ?thesis by blast
    next
      case False
      with s have "v' = bv" by (simp add: settled_def)
      with rest show ?thesis by simp
    qed
    with r k v' show ?thesis by simp
  qed
qed

text \<open>
  C1, as the code has it. No handler reads an \<^verbatim>\<open>access\<close> string: a SET whose payload is an
  object is merged into the capability tree at every path it addresses, whatever the access
  of the attribute there. After the SET every value of the payload that is not itself an
  object is found at its path in the tree; the peer registry is untouched and \<^verbatim>\<open>on_modified\<close>
  is called with the payload and the peer.
\<close>

theorem SET_merges_whatever_access:
  assumes "dict_get (VDict d) p = Inr v" and "\<not> is_dict v"
  shows "\<exists>s'. handle_SET (VDict d) peer grp s = Done s' \<and>
              dict_get (capability s') p = Inr v \<and>
              peers s' = peers s \<and>
              trace s' = trace s @ [On_modified (VDict d) (Some peer)]"
proof -
  from dict_merge_dict[of "VDict d" "capability s"] obtain r where
    r: "dict_merge (capability s) (VDict d) = Done r" by auto
  from merged_path[OF assms _ r] have "dict_get r p = Inr v" by simp
  with r show ?thesis by (simp add: handle_SET_def cb_defs)
qed

text \<open>The write to the read-only attribute \<^verbatim>\<open>B\<close> of scenario 3, by the theorem.\<close>

theorem SET_merges_whatever_access_witness:
  "\<exists>s'. handle_SET (VDict [(KStr ''B'', VDict [(KStr ''value'', VStr ''y'')])]) 2 None
           (ZOCP_init [(KStr ''B'', VDict [(KStr ''value'', VStr ''x''),
               (KStr ''typeHint'', VStr ''string''), (KStr ''access'', VStr ''r'')])]) = Done s' \<and>
         dict_get (capability s') [VStr ''B'', VStr ''value''] = Inr (VStr ''y'') \<and>
         peers s' = [] \<and>
         trace s' = [Join ''ZOCP'',
            On_modified (VDict [(KStr ''B'', VDict [(KStr ''value'', VStr ''y'')])]) (Some 2)]"
  using SET_merges_whatever_access [of "[(KStr ''B'', VDict [(KStr ''value'', VStr ''y'')])]"
     "[VStr ''B'', VStr ''value'']" "VStr ''y''" 2 None
     "ZOCP_init [(KStr ''B'', VDict [(KStr ''value'', VStr ''x''),
               (KStr ''typeHint'', VStr ''string''), (KStr ''access'', VStr ''r'')])]"]
  by (simp add: ZOCP_init_def)

text \<open>
  C1 as claimed fails on that input: \<^verbatim>\<open>B\<close> has access \<^verbatim>\<open>"r"\<close> and value \<^verbatim>\<open>"x"\<close>, and the SET
  of \<^verbatim>\<open>{B: {value: "y"}}\<close> stores \<^verbatim>\<open>"y"\<close>.
\<close>

theorem SET_read_only_counterexample:
  "dict_get (capability (ZOCP_init [(KStr ''B'', VDict [(KStr ''value'', VStr ''x''),
               (KStr ''typeHint'', VStr ''string''), (KStr ''access'', VStr ''r'')])]))
      [VStr ''B'', VStr ''access''] = Inr (VStr ''r'')
   \<and> dict_get (capability (ZOCP_init [(KStr ''B'', VDict [(KStr ''value'', VStr ''x''),
               (KStr ''typeHint'', VStr ''string''), (KStr ''access'', VStr ''r'')])]))
      [VStr ''B'', VStr ''value''] = Inr (VStr ''x'')
   \<and> handle_SET (VDict [(KStr ''B'', VDict [(KStr ''value'', VStr ''y'')])]) 2 None
       (ZOCP_init [(KStr ''B'', VDict [(KStr ''value'', VStr ''x''),
               (KStr ''typeHint'', VStr ''string''), (KStr ''access'', VStr ''r'')])]) =
     Done ((ZOCP_init [(KStr ''B'', VDict [(KStr ''value'', VStr ''x''),
               (KStr ''typeHint'', VStr ''string''), (KStr ''access'', VStr ''r'')])])
       \<lparr>capability := VDict [(KStr ''B'', VDict [(KStr ''value'', VStr ''y''),
               (KStr ''typeHint'', VStr ''string''), (KStr ''access'', VStr ''r'')])],
        trace := [Join ''ZOCP'',
            On_modified (VDict [(KStr ''B'', VDict [(KStr ''value'', VStr ''y'')])]) (Some 2)]\<rparr>)"
  by (simp add: handle_SET_def ZOCP_init_def cb_defs dict_merge.simps)

subsection \<open>GET\<close>

text \<open>
  C2, as the code has it. A received GET whose payload is \<^verbatim>\<open>null\<close> (or any other falsy value)
  is answered by exactly one whisper to the requesting peer, whose sole key is \<^verbatim>\<open>MOD\<close> and
  whose payload is the full capability tree; nothing else changes.
\<close>

theorem GET_null_replies_MOD:
  "loads f = Some (VDict [(KStr ''GET'', data)]) \<Longrightarrow> \<not> truthy data \<Longrightarrow>
   get_message loads ''WHISPER'' peer (f # fs) s =
     Done (s\<lparr>trace := trace s @ [On_peer_whisper peer (f # fs),
                                   Whisper peer (VDict [(KStr ''MOD'', capability s)])]\<rparr>) \<and>
   get_message loads ''SHOUT'' peer (g # f # fs) s =
     Done (s\<lparr>trace := trace s @ [On_peer_shout peer g (f # fs),
                                   Whisper peer (VDict [(KStr ''MOD'', capability s)])]\<rparr>)"
  by (simp add: get_message_def decode_dispatch_def handle_method_def handle_GET_def
      get_capability_def cb_defs)

text \<open>Scenario 2 by the theorem: the whole-tree GET is answered with a \<^verbatim>\<open>MOD\<close>.\<close>

theorem GET_null_replies_MOD_witness:
  "get_message (loads_const (VDict [(KStr ''GET'', VNone)])) ''WHISPER'' 2 [''m'']
     (ZOCP_init [(KStr ''A'', VDict [(KStr ''value'', VInt 7), (KStr ''typeHint'', VStr ''int''),
                                     (KStr ''access'', VStr ''r'')])]) =
   Done ((ZOCP_init [(KStr ''A'', VDict [(KStr ''value'', VInt 7), (KStr ''typeHint'', VStr ''int''),
                                     (KStr ''access'', VStr ''r'')])])
      \<lparr>trace := [Join ''ZOCP'', On_peer_whisper 2 [''m''],
         Whisper 2 (VDict [(KStr ''MOD'',
           VDict [(KStr ''A'', VDict [(KStr ''value'', VInt 7), (KStr ''typeHint'', VStr ''int''),
                                     (KStr ''access'', VStr ''r'')])])])]\<rparr>)"
  using GET_null_replies_MOD [of "loads_const (VDict [(KStr ''GET'', VNone)])" "''m''" VNone 2 "[]"
     "ZOCP_init [(KStr ''A'', VDict [(KStr ''value'', VInt 7), (KStr ''typeHint'', VStr ''int''),
                                     (KStr ''access'', VStr ''r'')])]"]
  by (simp add: loads_const_def ZOCP_init_def)

text \<open>C2 as claimed fails there: the one whisper has the key \<^verbatim>\<open>MOD\<close>, none has \<^verbatim>\<open>REP\<close>.\<close>

theorem GET_null_counterexample:
  "trace (outcome (handle_GET VNone 2 None
      (ZOCP_init [(KStr ''A'', VDict [(KStr ''value'', VInt 7), (KStr ''typeHint'', VStr ''int''),
                                      (KStr ''access'', VStr ''r'')])]))) =
   [Join ''ZOCP'',
    Whisper 2 (VDict [(KStr ''MOD'',
       VDict [(KStr ''A'', VDict [(KStr ''value'', VInt 7), (KStr ''typeHint'', VStr ''int''),
                                  (KStr ''access'', VStr ''r'')])])])]
   \<and> Whisper 2 (VDict [(KStr ''REP'',
       VDict [(KStr ''A'', VDict [(KStr ''value'', VInt 7), (KStr ''typeHint'', VStr ''int''),
                                  (KStr ''access'', VStr ''r'')])])])
     \<notin> set (trace (outcome (handle_GET VNone 2 None
      (ZOCP_init [(KStr ''A'', VDict [(KStr ''value'', VInt 7), (KStr ''typeHint'', VStr ''int''),
                                      (KStr ''access'', VStr ''r'')])]))))"
  by (simp add: handle_GET_def get_capability_def ZOCP_init_def cb_defs)

text \<open>
  C3 at the request \<^verbatim>\<open>{GET: ["A"]}\<close>: the handler first whispers \<^verbatim>\<open>{SET: ["A"]}\<close> to the
  requester (the call of \<^verbatim>\<open>peer_set\<close>) and then the reply with the requested subtree.
\<close>

theorem GET_keys_whispers_SET:
  "handle_GET (VList [VStr ''A'']) 2 None
      (ZOCP_init [(KStr ''A'', VDict [(KStr ''value'', VInt 7), (KStr ''typeHint'', VStr ''int''),
                                      (KStr ''access'', VStr ''r'')])]) =
   Done ((ZOCP_init [(KStr ''A'', VDict [(KStr ''value'', VInt 7), (KStr ''typeHint'', VStr ''int''),
                                      (KStr ''access'', VStr ''r'')])])
     \<lparr>trace := [Join ''ZOCP'',
        Whisper 2 (VDict [(KStr ''SET'', VList [VStr ''A''])]),
        Whisper 2 (VDict [(KStr ''MOD'',
          VDict [(KStr ''A'', VDict [(KStr ''value'', VInt 7), (KStr ''typeHint'', VStr ''int''),
                                     (KStr ''access'', VStr ''r'')])])])]\<rparr>)"
  by (simp add: handle_GET_def peer_set_def dict_get_default_def ZOCP_init_def cb_defs)

subsection \<open>REP\<close>

text \<open>
  C8, as the code has it. A received REP is ignored: the message handler only runs the
  transport callback; the peer registry, the capability tree and the rest of the trace stay
  as they were, so no mirror is merged and no peer-replied callback runs.
\<close>

theorem REP_is_ignored:
  "loads f = Some (VDict [(KStr ''REP'', data)]) \<Longrightarrow>
   get_message loads ''WHISPER'' peer (f # fs) s =
     Done (s\<lparr>trace := trace s @ [On_peer_whisper peer (f # fs)]\<rparr>) \<and>
   get_message loads ''SHOUT'' peer (g # f # fs) s =
     Done (s\<lparr>trace := trace s @ [On_peer_shout peer g (f # fs)]\<rparr>)"
  by (simp add: get_message_def decode_dispatch_def handle_method_def handle_REP_def cb_defs)

theorem REP_is_ignored_witness:
  "get_message (loads_const (VDict [(KStr ''REP'', VDict [(KStr ''a'', VInt 1)])])) ''WHISPER'' 2
      [''m''] (ZOCP_init []) =
     Done ((ZOCP_init [])\<lparr>trace := [Join ''ZOCP'', On_peer_whisper 2 [''m'']]\<rparr>)"
  using REP_is_ignored [of "loads_const (VDict [(KStr ''REP'', VDict [(KStr ''a'', VInt 1)])])"
      "''m''" "VDict [(KStr ''a'', VInt 1)]" 2 "[]" "ZOCP_init []"]
  by (simp add: loads_const_def ZOCP_init_def)

text \<open>
  C8 as claimed fails for a registered peer with an empty mirror: REP leaves the mirror
  empty and calls nothing, where MOD with the same payload merges it.
\<close>

theorem REP_counterexample:
  "peers (outcome (handle_REP (VDict [(KStr ''a'', VInt 1)]) 2 None
            ((ZOCP_init [])\<lparr>peers := [(2, VDict [])]\<rparr>))) = [(2, VDict [])]
   \<and> trace (outcome (handle_REP (VDict [(KStr ''a'', VInt 1)]) 2 None
            ((ZOCP_init [])\<lparr>peers := [(2, VDict [])]\<rparr>))) = [Join ''ZOCP'']
   \<and> peers (outcome (handle_MOD (VDict [(KStr ''a'', VInt 1)]) 2 None
            ((ZOCP_init [])\<lparr>peers := [(2, VDict [])]\<rparr>))) = [(2, VDict [(KStr ''a'', VInt 1)])]"
  by (simp add: handle_REP_def handle_MOD_def ZOCP_init_def cb_defs dict_merge.simps)

subsection \<open>Unknown verbs\<close>

lemma handle_method_unknown:
  "method \<notin> set verbs \<Longrightarrow> handle_method method data peer grp s = Raised (Exception method) s"
  by (simp add: handle_method_def verbs_def)

lemma dispatch_unknown:
  "method \<in> set ks \<Longrightarrow> method \<notin> set verbs \<Longrightarrow> \<exists>e s'. dispatch msg ks peer grp s = Raised e s'"
proof (induction ks arbitrary: s)
  case Nil
  then show ?case by simp
next
  case (Cons k ks)
  show ?case
  proof (cases "map_of msg k")
    case None
    then show ?thesis by simp
  next
    case (Some data)
    show ?thesis
    proof (cases "handle_method k data peer grp s")
      case (Done s1)
      with Cons.prems handle_method_unknown[of k data peer grp s] have "method \<in> set ks"
        by auto
      from Cons.IH[OF this Cons.prems(2), of s1] Some Done show ?thesis by simp
    next
      case (Raised e s1)
      with Some show ?thesis by simp
    qed
  qed
qed

text \<open>
  C7, as the code has it. A WHISPER or SHOUT whose decoded object has a key outside the
  eight verbs makes \<^verbatim>\<open>get_message\<close> raise. When that key is the only one, the exception is
  the \<^verbatim>\<open>Exception\<close> of the last branch, nothing is logged and the state is the one after the
  transport callback.
\<close>

theorem unknown_verb_raises:
  assumes "loads f = Some (VDict kvs)" and "method \<in> fst ` set kvs" and "method \<notin> set verbs"
  shows "(\<exists>e s'. get_message loads ''WHISPER'' peer (f # fs) s = Raised e s') \<and>
         (\<exists>e s'. get_message loads ''SHOUT'' peer (g # f # fs) s = Raised e s') \<and>
         (kvs = [(method, data)] \<longrightarrow>
            get_message loads ''WHISPER'' peer (f # fs) s =
              Raised (Exception method) (s\<lparr>trace := trace s @ [On_peer_whisper peer (f # fs)]\<rparr>) \<and>
            get_message loads ''SHOUT'' peer (g # f # fs) s =
              Raised (Exception method) (s\<lparr>trace := trace s @ [On_peer_shout peer g (f # fs)]\<rparr>))"
proof -
  from assms(2) have m: "method \<in> set (map fst kvs)" by simp
  have "\<exists>e s'. dispatch kvs (map fst kvs) peer grp' s1 = Raised e s'" for grp' s1
    using m assms(3) by (rule dispatch_unknown)
  then have "\<exists>e s'. decode_dispatch loads peer grp' (f # fs) s1 = Raised e s'" for grp' s1
    using assms(1) by (simp add: decode_dispatch_def)
  moreover have "decode_dispatch loads peer grp' (f # fs) s1 = Raised (Exception method) s1"
    if "kvs = [(method, data)]" for grp' s1
    using assms(1,3) that by (simp add: decode_dispatch_def handle_method_unknown)
  ultimately show ?thesis
    by (simp add: get_message_def cb_defs)
qed

theorem unknown_verb_raises_witness:
  "get_message (loads_const (VDict [(KStr ''FOO'', VNone)])) ''WHISPER'' 2 [''m''] (ZOCP_init []) =
     Raised (Exception (KStr ''FOO''))
       ((ZOCP_init [])\<lparr>trace := [Join ''ZOCP'', On_peer_whisper 2 [''m'']]\<rparr>)"
  using unknown_verb_raises [of "loads_const (VDict [(KStr ''FOO'', VNone)])" "''m''"
      "[(KStr ''FOO'', VNone)]" "KStr ''FOO''" 2 "[]" "ZOCP_init []" "''g''" VNone]
  by (simp add: loads_const_def verbs_def ZOCP_init_def)

text \<open>C7 as claimed fails at \<^verbatim>\<open>{FOO: null}\<close>: an exception leaves the handler, no error is printed.\<close>

theorem unknown_verb_counterexample:
  "raised (get_message (loads_const (VDict [(KStr ''FOO'', VNone)])) ''WHISPER'' 2 [''m'']
     (ZOCP_init [])) = Some (Exception (KStr ''FOO''))
   \<and> Print_error \<notin> set (trace (outcome
        (get_message (loads_const (VDict [(KStr ''FOO'', VNone)])) ''WHISPER'' 2 [''m'']
          (ZOCP_init []))))"
  by (simp add: get_message_def decode_dispatch_def handle_method_def loads_const_def
      ZOCP_init_def cb_defs)

subsection \<open>Events that complete\<close>

lemma get_loop_total:
  "is_dict cap \<Longrightarrow> list_all is_str items \<Longrightarrow> \<exists>ret. get_loop cap items acc = Inr ret"
proof (induction items arbitrary: acc)
  case Nil
  then show ?case by simp
next
  case (Cons x items)
  from Cons.prems obtain kvs str where "cap = VDict kvs" "x = VStr str"
    by (cases cap; cases x) auto
  with Cons show ?case by simp
qed

lemma handle_GET_total:
  assumes "is_dict (capability s)" and "data = VNone \<or> is_str_list data"
  shows "\<exists>s'. handle_GET data peer grp s = Done s' \<and> capability s' = capability s"
proof (cases "truthy data")
  case False
  then show ?thesis by (simp add: handle_GET_def cb_defs)
next
  case True
  with assms(2) obtain items where d: "data = VList items" "list_all is_str items"
    by (cases data) auto
  from get_loop_total[OF assms(1) d(2)] obtain ret where
    "get_loop (capability s) items [] = Inr ret" by blast
  with True d show ?thesis by (simp add: handle_GET_def peer_set_def cb_defs)
qed

lemma handle_SET_total:
  assumes "is_dict (capability s)" and "is_dict data"
  shows "\<exists>s'. handle_SET data peer grp s = Done s' \<and> is_dict (capability s')"
proof -
  from dict_merge_dict[OF assms(2), of "capability s"] assms(1) obtain r where
    "dict_merge (capability s) data = Done r" "is_dict r" by blast
  then show ?thesis by (simp add: handle_SET_def cb_defs)
qed

lemma handle_MOD_total:
  assumes "is_dict data"
  shows "\<exists>s'. handle_MOD data peer grp s = Done s' \<and> capability s' = capability s"
proof -
  from dict_merge_dict[OF assms, of "case map_of (peers s) peer of Some m \<Rightarrow> m | None \<Rightarrow> VNone"]
  obtain r where
    "dict_merge (case map_of (peers s) peer of Some m \<Rightarrow> m | None \<Rightarrow> VNone) data = Done r"
    by blast
  then show ?thesis by (simp add: handle_MOD_def cb_defs)
qed

lemma handle_method_total:
  assumes "is_dict (capability s)" and "payload_fits method data"
  shows "\<exists>s'. handle_method method data peer grp s = Done s' \<and> is_dict (capability s')"
proof -
  consider "method = KStr ''GET''" | "method = KStr ''SET''" | "method = KStr ''MOD''"
    | "method \<in> {KStr ''CALL'', KStr ''SUB'', KStr ''UNSUB'', KStr ''REP'', KStr ''SIG''}"
    using assms(2) by (auto simp: payload_fits_def verbs_def split: if_splits)
  then show ?thesis
  proof cases
    case 1
    with assms handle_GET_total[of s data peer grp] show ?thesis
      by (auto simp: handle_method_def payload_fits_def)
  next
    case 2
    with assms handle_SET_total[of s data peer grp] show ?thesis
      by (auto simp: handle_method_def payload_fits_def)
  next
    case 3
    with assms handle_MOD_total[of data peer grp s] show ?thesis
      by (auto simp: handle_method_def payload_fits_def)
  next
    case 4
    with assms(1) show ?thesis
      by (auto simp: handle_method_def handle_CALL_def handle_SUB_def handle_UNSUB_def
          handle_REP_def handle_SIG_def)
  qed
qed

lemma dispatch_total:
  "is_dict (capability s) \<Longrightarrow> list_all (\<lambda>kv. payload_fits (fst kv) (snd kv)) msg \<Longrightarrow>
   set ks \<subseteq> fst ` set msg \<Longrightarrow> \<exists>s'. dispatch msg ks peer grp s = Done s'"
proof (induction ks arbitrary: s)
  case Nil
  then show ?case by simp
next
  case (Cons k ks)
  from Cons.prems(3) obtain data where data: "map_of msg k = Some data"
    by (metis domD dom_map_of_conv_image_fst list.set_intros(1) subsetD)
  then have "(k, data) \<in> set msg" by (rule map_of_SomeD)
  with Cons.prems(2) have "payload_fits k data" by (auto simp: list_all_iff)
  from handle_method_total[OF Cons.prems(1) this, of peer grp] obtain s1 where
    s1: "handle_method k data peer grp s = Done s1" "is_dict (capability s1)" by blast
  from Cons.IH[OF s1(2) Cons.prems(2), of] Cons.prems(3) obtain s' where
    "dispatch msg ks peer grp s1 = Done s'" by auto
  with data s1 show ?case by simp
qed

lemma decode_dispatch_total:
  assumes "is_dict (capability s)"
    and "\<And>f m. msg = f # tl msg \<Longrightarrow> loads f = Some m \<Longrightarrow> shaped m"
  shows "\<exists>s'. decode_dispatch loads peer grp msg s = Done s'"
proof (cases msg)
  case Nil
  then show ?thesis by (simp add: decode_dispatch_def)
next
  case (Cons f rest)
  show ?thesis
  proof (cases "loads f")
    case None
    with Cons show ?thesis by (simp add: decode_dispatch_def)
  next
    case (Some m)
    with assms(2)[of f m] Cons have "shaped m" by simp
    then obtain kvs where m: "m = VDict kvs"
      "list_all (\<lambda>kv. payload_fits (fst kv) (snd kv)) kvs" by (cases m) auto
    from dispatch_total[OF assms(1) m(2), of "map fst kvs" peer grp] obtain s' where
      "dispatch kvs (map fst kvs) peer grp s = Done s'" by auto
    with Cons Some m show ?thesis by (simp add: decode_dispatch_def)
  qed
qed

text \<open>
  C4, as far as the code goes. On a node whose capability is a dictionary, \<^verbatim>\<open>get_message\<close>
  completes without an exception for an ENTER, for an EXIT of a registered peer, for a JOIN,
  LEAVE or SHOUT that carries its group frame, for a WHISPER, and for any other event type,
  provided the content frame of a SHOUT or WHISPER is missing, does not decode, or decodes
  to a shaped message.
\<close>

theorem get_message_completes:
  assumes "is_dict (capability s)"
    and "type = ''EXIT'' \<longrightarrow> map_of (peers s) peer \<noteq> None"
    and "type = ''JOIN'' \<or> type = ''LEAVE'' \<or> type = ''SHOUT'' \<longrightarrow> msg \<noteq> []"
    and "\<forall>f m. content_frame type msg = Some f \<and> loads f = Some m \<longrightarrow> shaped m"
  shows "\<exists>s'. get_message loads type peer msg s = Done s'"
proof -
  consider "type = ''ENTER''" | "type = ''EXIT''" | "type = ''JOIN''" | "type = ''LEAVE''"
    | "type = ''SHOUT''" | "type = ''WHISPER''"
    | "type \<notin> {''ENTER'', ''EXIT'', ''JOIN'', ''LEAVE'', ''SHOUT'', ''WHISPER''}" by auto
  then show ?thesis
  proof cases
    case 1
    then show ?thesis by (simp add: get_message_def Let_def)
  next
    case 2
    with assms(2) show ?thesis by (auto simp: get_message_def cb_defs)
  next
    case 3
    with assms(3) show ?thesis by (cases msg) (auto simp: get_message_def)
  next
    case 4
    with assms(3) show ?thesis by (cases msg) (auto simp: get_message_def)
  next
    case 5
    with assms(3) obtain g rest where msg: "msg = g # rest" by (cases msg) auto
    have "\<exists>s'. decode_dispatch loads peer (Some g) rest (on_peer_shout peer g rest s) = Done s'"
    proof (rule decode_dispatch_total)
      show "is_dict (capability (on_peer_shout peer g rest s))"
        using assms(1) by (simp add: cb_defs)
      show "shaped m" if "rest = f # tl rest" "loads f = Some m" for f m
      proof -
        from that(1) msg 5 have "content_frame type msg = Some f"
          by (cases rest) (auto simp: content_frame_def)
        with assms(4) that(2) show ?thesis by blast
      qed
    qed
    with 5 msg show ?thesis by (simp add: get_message_def)
  next
    case 6
    have "\<exists>s'. decode_dispatch loads peer None msg (on_peer_whisper peer msg s) = Done s'"
    proof (rule decode_dispatch_total)
      show "is_dict (capability (on_peer_whisper peer msg s))"
        using assms(1) by (simp add: cb_defs)
      show "shaped m" if "msg = f # tl msg" "loads f = Some m" for f m
      proof -
        from that(1) 6 have "content_frame type msg = Some f"
          by (cases msg) (auto simp: content_frame_def)
        with assms(4) that(2) show ?thesis by blast
      qed
    qed
    with 6 show ?thesis by (simp add: get_message_def)
  next
    case 7
    then show ?thesis by (simp add: get_message_def)
  qed
qed

theorem get_message_completes_witness:
  "\<exists>s'. get_message
      (loads_const (VDict [(KStr ''SET'', VDict [(KStr ''a'', VInt 1)]),
                           (KStr ''GET'', VList [VStr ''a''])]))
      ''WHISPER'' 2 [''m''] (ZOCP_init []) = Done s'"
  using get_message_completes [of "ZOCP_init []" "''WHISPER''" 2 "[''m'']"
      "loads_const (VDict [(KStr ''SET'', VDict [(KStr ''a'', VInt 1)]),
                           (KStr ''GET'', VList [VStr ''a''])])"]
  by (simp add: ZOCP_init_def content_frame_def loads_const_def payload_fits_def)

text \<open>
  C4 as claimed fails: a SHOUT whose message has the verb \<^verbatim>\<open>BAR\<close> ends in the exception the
  last branch of the handler raises.
\<close>

theorem SHOUT_unknown_verb_counterexample:
  "get_message (loads_const (VDict [(KStr ''BAR'', VInt 1)])) ''SHOUT'' 2 [''ZOCP'', ''m'']
     (ZOCP_init []) =
   Raised (Exception (KStr ''BAR''))
     ((ZOCP_init [])\<lparr>trace := [Join ''ZOCP'', On_peer_shout 2 ''ZOCP'' [''m'']]\<rparr>)"
  by (simp add: get_message_def decode_dispatch_def handle_method_def loads_const_def
      ZOCP_init_def cb_defs)

text \<open>
  The EXIT of a peer that is not in the registry: \<^verbatim>\<open>self.peers.pop(peer)\<close> has no default and
  raises KeyError after the callback.
\<close>

lemma EXIT_unregistered_peer_raises:
  "map_of (peers s) peer = None \<Longrightarrow>
   get_message loads ''EXIT'' peer msg s = Raised KeyError (on_peer_exit peer msg s)"
  by (simp add: get_message_def cb_defs)

section \<open>Requests to peers\<close>

text \<open>
  C6 on the code: \<^verbatim>\<open>peer_unsubscribe\<close> whispers a message whose key is \<^verbatim>\<open>SUB\<close>, the very message
  \<^verbatim>\<open>peer_subscribe\<close> sends, for every peer, signal and sensor.
\<close>

theorem peer_unsubscribe_sends_SUB:
  "peer_unsubscribe peer signal sensor s =
     s\<lparr>trace := trace s @ [Whisper peer (VDict [(KStr ''SUB'', VList [signal, sensor])])]\<rparr>
   \<and> peer_unsubscribe peer signal sensor s = peer_subscribe peer signal sensor s"
  by (simp add: peer_unsubscribe_def peer_subscribe_def whisper_def emit_def)

section \<open>Registering attributes\<close>

text \<open>
  C9 on the code: on a fresh node \<^verbatim>\<open>set_object(None)\<close> ends with the scope at
  \<^verbatim>\<open>objects[None]\<close>, and a following \<^verbatim>\<open>register_int("x", 1)\<close> puts \<^verbatim>\<open>x\<close> there and not at the top
  level.
\<close>

theorem set_object_None_keeps_object_scope:
  "set_object VNone (VStr ''Unknown'') (ZOCP_init []) =
     Done ((ZOCP_init [])
       \<lparr>capability := VDict [(KStr ''objects'', VDict [(KNone, VDict [(KStr ''type'', VStr ''Unknown'')])])],
        cur_obj := [KStr ''objects'', KNone], cur_obj_keys := [KStr ''objects'', KNone]\<rparr>)
   \<and> capability (outcome (register_int (VStr ''x'') (VInt 1) (VStr ''r'') VNone VNone VNone
        (outcome (set_object VNone (VStr ''Unknown'') (ZOCP_init []))))) =
     VDict [(KStr ''objects'', VDict [(KNone,
        VDict [(KStr ''type'', VStr ''Unknown''),
               (KStr ''x'', VDict [(KStr ''value'', VInt 1), (KStr ''typeHint'', VStr ''int''),
                                   (KStr ''access'', VStr ''r'')])])])]"
  by (simp add: set_object_def register_int_def register_bounded_def priv_on_modified_def
      dict_get_default_def ZOCP_init_def cb_defs Let_def)

lemma deref_store_at:
  "deref ps tree = Some (VDict d) \<Longrightarrow> deref (ps @ [k]) (store_at ps k v tree) = Some v"
proof (induction ps arbitrary: tree)
  case Nil
  then show ?case by (simp add: update_conv')
next
  case (Cons p ps)
  then show ?case
    by (cases tree) (auto simp: update_conv' split: option.splits)
qed

text \<open>
  C10. When \<^verbatim>\<open>_cur_obj\<close> is a dictionary of the tree and the name is hashable,
  \<^verbatim>\<open>register_int\<close>, \<^verbatim>\<open>register_float\<close> and \<^verbatim>\<open>register_percent\<close> return and store an attribute
  node under the name in which \<^verbatim>\<open>min\<close>, \<^verbatim>\<open>max\<close> and \<^verbatim>\<open>step\<close> are present exactly when the
  argument is truthy, with the argument as value; a bound of \<^verbatim>\<open>0\<close> or \<^verbatim>\<open>0.0\<close> is therefore
  not stored.
\<close>

theorem zero_bounds_dropped:
  assumes "deref (cur_obj s) (capability s) = Some (VDict d)"
    and "as_key name = Some k"
    and "reg = register_int \<or> reg = register_float \<or> reg = register_percent"
  shows "\<exists>s' node. reg name v access mn mx step s = Done s' \<and>
           deref (cur_obj s @ [k]) (capability s') = Some (VDict node) \<and>
           map_of node (KStr ''min'') = (if truthy mn then Some mn else None) \<and>
           map_of node (KStr ''max'') = (if truthy mx then Some mx else None) \<and>
           map_of node (KStr ''step'') = (if truthy step then Some step else None) \<and>
           (mn = VInt 0 \<or> mn = VFloat 0 \<longrightarrow> map_of node (KStr ''min'') = None) \<and>
           (mx = VInt 0 \<or> mx = VFloat 0 \<longrightarrow> map_of node (KStr ''max'') = None) \<and>
           (step = VInt 0 \<or> step = VFloat 0 \<longrightarrow> map_of node (KStr ''step'') = None)"
proof -
  have *: "\<exists>s' node. register_bounded hint name v access mn mx step s = Done s' \<and>
           deref (cur_obj s @ [k]) (capability s') = Some (VDict node) \<and>
           map_of node (KStr ''min'') = (if truthy mn then Some mn else None) \<and>
           map_of node (KStr ''max'') = (if truthy mx then Some mx else None) \<and>
           map_of node (KStr ''step'') = (if truthy step then Some step else None)" for hint
    using assms(2) deref_store_at[OF assms(1)]
    by (simp add: register_bounded_def priv_on_modified_def cb_defs Let_def update_conv')
  have z: "\<not> truthy (VInt 0)" "\<not> truthy (VFloat 0)" by simp_all
  from assms(3) consider "reg = register_int" | "reg = register_float" | "reg = register_percent"
    by blast
  then show ?thesis
  proof cases
    case 1
    have "reg name v access mn mx step s = register_bounded ''int'' name v access mn mx step s"
      by (simp add: 1 register_int_def)
    with *[of "''int''"] z show ?thesis by auto
  next
    case 2
    have "reg name v access mn mx step s = register_bounded ''float'' name v access mn mx step s"
      by (simp add: 2 register_float_def)
    with *[of "''float''"] z show ?thesis by auto
  next
    case 3
    have "reg name v access mn mx step s = register_bounded ''percent'' name v access mn mx step s"
      by (simp add: 3 register_percent_def)
    with *[of "''percent''"] z show ?thesis by auto
  qed
qed

text \<open>The call \<^verbatim>\<open>register_float("zocpFloat", 2.3, 'rw', 0, 5.0, 0.1)\<close> of the module's main block.\<close>

theorem zero_bounds_dropped_witness:
  "\<exists>s' node. register_float (VStr ''zocpFloat'') (VFloat 2.3) (VStr ''rw'') (VInt 0) (VFloat 5)
                 (VFloat 0.1) (ZOCP_init []) = Done s' \<and>
     deref [KStr ''zocpFloat''] (capability s') = Some (VDict node) \<and>
     map_of node (KStr ''min'') = None \<and>
     map_of node (KStr ''max'') = Some (VFloat 5) \<and>
     map_of node (KStr ''step'') = Some (VFloat 0.1)"
  using zero_bounds_dropped [of "ZOCP_init []" "[]" "VStr ''zocpFloat''" "KStr ''zocpFloat''"
     register_float "VFloat 2.3" "VStr ''rw''" "VInt 0" "VFloat 5" "VFloat 0.1"]
  by (auto simp add: ZOCP_init_def)

end
